theory Spec2Isabelle
  imports Complex_Main "HOL-Library.AList"
begin

section \<open>Python values used by the service\<close>

text \<open>
  The service is one Python module, \<^verbatim>\<open>apps/ai-anomaly/main.py\<close>. Its endpoints are pure
  functions over lists, strings, dictionaries and floats. Strings are lists of
  characters read as code points below 256; a dictionary is an association list in
  insertion order (\<open>AList.update\<close> overwrites a key in place and appends a new key at the
  end, as a Python \<^verbatim>\<open>dict\<close> does); a Python \<^verbatim>\<open>float\<close> is idealised as a real number, so
  rounding and the non-finite values of IEEE arithmetic are outside the model. Float
  addition, multiplication and division do not raise on overflow (they give an
  infinity); the power operator does, and that is modelled.
  Every exception the code can raise is a value of \<open>py_error\<close>.
\<close>

datatype py_error = ValueError | ZeroDivisionError | StatisticsError | OverflowError




text \<open>\<^verbatim>\<open>d.get(k, default)\<close> on a dictionary.\<close>

definition dict_get :: "('k \<times> 'v) list \<Rightarrow> 'k \<Rightarrow> 'v \<Rightarrow> 'v" where
  "dict_get d k dflt = (case map_of d k of None \<Rightarrow> dflt | Some v \<Rightarrow> v)"

text \<open>\<^verbatim>\<open>str(n)\<close> as an f-string renders an integer: decimal digits, a minus sign first
  for a negative number.\<close>

definition digit_char :: "nat \<Rightarrow> char" where
  "digit_char d = char_of (48 + d)"

fun str_nat :: "nat \<Rightarrow> string" where
  "str_nat n = (if n < 10 then [digit_char n] else str_nat (n div 10) @ [digit_char (n mod 10)])"

definition str_int :: "int \<Rightarrow> string" where
  "str_int i = (if i < 0 then CHR ''-'' # str_nat (nat (- i)) else str_nat (nat i))"

text \<open>
  \<^verbatim>\<open>int(s, 16)\<close> on the strings the decoder passes to it, which have one or two
  characters. Besides hexadecimal digits of either case, Python accepts white space
  around the digits and a sign before them; a lone prefix \<^verbatim>\<open>0x\<close>, an underscore or any
  other character raises \<^verbatim>\<open>ValueError\<close>.
\<close>

definition hex_digit :: "char \<Rightarrow> nat option" where
  "hex_digit c =
     (let n = (of_char c :: nat) in
      if 48 \<le> n \<and> n \<le> 57 then Some (n - 48)
      else if 97 \<le> n \<and> n \<le> 102 then Some (n - 87)
      else if 65 \<le> n \<and> n \<le> 70 then Some (n - 55)
      else None)"

definition py_isspace :: "char \<Rightarrow> bool" where
  "py_isspace c = ((of_char c :: nat) \<in> {9, 10, 11, 12, 13, 32, 133, 160})"

fun int16 :: "string \<Rightarrow> py_error + int" where
  "int16 [c] = (case hex_digit c of Some d \<Rightarrow> Inr (int d) | None \<Rightarrow> Inl ValueError)"
| "int16 [a, b] =
     (case (hex_digit a, hex_digit b) of
        (Some x, Some y) \<Rightarrow> Inr (int (16 * x + y))
      | (None, Some y) \<Rightarrow>
          if py_isspace a \<or> a = CHR ''+'' then Inr (int y)
          else if a = CHR ''-'' then Inr (- int y)
          else Inl ValueError
      | (Some x, None) \<Rightarrow> if py_isspace b then Inr (int x) else Inl ValueError
      | (None, None) \<Rightarrow> Inl ValueError)"
| "int16 s = Inl ValueError"

section \<open>The bytecode decoder\<close>

text \<open>The dictionary \<^verbatim>\<open>OPCODE_MAP\<close> of \<^verbatim>\<open>decode_evm_bytecode\<close>.\<close>

definition OPCODE_MAP :: "(int \<times> string) list" where
  "OPCODE_MAP =
    [(0x00, ''STOP''), (0x01, ''ADD''), (0x02, ''MUL''), (0x03, ''SUB''), (0x04, ''DIV''),
     (0x05, ''SDIV''), (0x06, ''MOD''), (0x07, ''SMOD''), (0x08, ''ADDMOD''),
     (0x09, ''MULMOD''), (0x0a, ''EXP''), (0x0b, ''SIGNEXTEND''),
     (0x10, ''LT''), (0x11, ''GT''), (0x12, ''SLT''), (0x13, ''SGT''), (0x14, ''EQ''),
     (0x15, ''ISZERO''), (0x16, ''AND''), (0x17, ''OR''), (0x18, ''XOR''),
     (0x19, ''BYTE''), (0x1b, ''SHL''), (0x1c, ''SHR''), (0x1d, ''SAR''),
     (0x20, ''KECCAK256''), (0x30, ''ADDRESS''), (0x31, ''BALANCE''),
     (0x32, ''ORIGIN''), (0x33, ''CALLER''), (0x34, ''CALLVALUE''),
     (0x35, ''CALLDATALOAD''), (0x36, ''CALLDATASIZE''), (0x37, ''CALLDATACOPY''),
     (0x38, ''CODESIZE''), (0x39, ''CODECOPY''), (0x3a, ''GASPRICE''),
     (0x3b, ''EXTCODESIZE''), (0x3c, ''EXTCODECOPY''), (0x3d, ''RETURNDATASIZE''),
     (0x3e, ''RETURNDATACOPY''), (0x3f, ''EXTCODEHASH''),
     (0x40, ''BLOCKHASH''), (0x41, ''COINBASE''), (0x42, ''TIMESTAMP''),
     (0x43, ''NUMBER''), (0x44, ''DIFFICULTY''), (0x45, ''GASLIMIT''),
     (0x50, ''POP''), (0x51, ''MLOAD''), (0x52, ''MSTORE''), (0x53, ''MSTORE8''),
     (0x54, ''SLOAD''), (0x55, ''SSTORE''), (0x56, ''JUMP''), (0x57, ''JUMPI''),
     (0x58, ''PC''), (0x59, ''MSIZE''), (0x5a, ''GAS''), (0x5b, ''JUMPDEST''),
     (0xf0, ''CREATE''), (0xf1, ''CALL''), (0xf2, ''CALLCODE''),
     (0xf3, ''RETURN''), (0xf4, ''DELEGATECALL''), (0xf5, ''CREATE2''),
     (0xfa, ''STATICCALL''), (0xfd, ''REVERT''), (0xfe, ''INVALID''),
     (0xff, ''SELFDESTRUCT'')]"

text \<open>\<^verbatim>\<open>[code[i:i+2] for i in range(0, len(code), 2)]\<close>: the cursor \<open>i\<close> is \<open>2 * k\<close>, and a
  slice that reaches past the end of \<open>code\<close> is cut there.\<close>

definition bytes_seq_of :: "string \<Rightarrow> string list" where
  "bytes_seq_of code = map (\<lambda>k. take 2 (drop (2 * k) code)) [0 ..< (length code + 1) div 2]"

text \<open>
  The \<^verbatim>\<open>while i < len(bytes_seq)\<close> loop, with the cursor \<open>i\<close> and the list \<open>opcodes\<close>
  built so far as its state. A chunk is parsed only when the cursor stands on it, so
  the immediate data a push skips is never given to \<^verbatim>\<open>int\<close>.
\<close>

function decode_loop :: "string list \<Rightarrow> nat \<Rightarrow> string list \<Rightarrow> py_error + string list" where
  "decode_loop bytes_seq i opcodes =
     (if i < length bytes_seq then
        (case int16 (bytes_seq ! i) of
           Inl e \<Rightarrow> Inl e
         | Inr byte_val \<Rightarrow>
             if 0x60 \<le> byte_val \<and> byte_val \<le> 0x7f then
               decode_loop bytes_seq (i + 1 + nat (byte_val - 0x5f))
                 (opcodes @ [''PUSH'' @ str_int (byte_val - 0x5f)])
             else if 0x80 \<le> byte_val \<and> byte_val \<le> 0x8f then
               decode_loop bytes_seq (i + 1) (opcodes @ [''DUP'' @ str_int (byte_val - 0x7f)])
             else if 0x90 \<le> byte_val \<and> byte_val \<le> 0x9f then
               decode_loop bytes_seq (i + 1) (opcodes @ [''SWAP'' @ str_int (byte_val - 0x8f)])
             else if 0xa0 \<le> byte_val \<and> byte_val \<le> 0xa4 then
               decode_loop bytes_seq (i + 1) (opcodes @ [''LOG'' @ str_int (byte_val - 0xa0)])
             else
               decode_loop bytes_seq (i + 1) (opcodes @ [dict_get OPCODE_MAP byte_val ''UNKNOWN'']))
      else Inr opcodes)"
  by pat_completeness auto
termination
  by (relation "measure (\<lambda>(bytes_seq, i, opcodes). length bytes_seq - i)") auto

declare decode_loop.simps [simp del]

definition decode_evm_bytecode :: "string \<Rightarrow> py_error + string list" where
  "decode_evm_bytecode bytecode =
     (let code = (if take 2 bytecode = ''0x'' then drop 2 bytecode else bytecode);
          bytes_seq = bytes_seq_of code
      in decode_loop bytes_seq 0 [])"

section \<open>The bytecode analyzer\<close>

text \<open>The table \<^verbatim>\<open>INTRINSIC_GAS_COSTS\<close>; an opcode it does not list costs 3.\<close>

definition INTRINSIC_GAS_COSTS :: "(string \<times> int) list" where
  "INTRINSIC_GAS_COSTS =
    [(''STOP'', 0),
     (''ADD'', 3), (''MUL'', 5), (''SUB'', 3), (''DIV'', 5), (''SDIV'', 5), (''MOD'', 5), (''SMOD'', 5),
     (''EXP'', 50), (''SIGNEXTEND'', 5),
     (''LT'', 3), (''GT'', 3), (''SLT'', 3), (''SGT'', 3), (''EQ'', 3), (''ISZERO'', 3), (''AND'', 3),
     (''OR'', 3), (''XOR'', 3), (''BYTE'', 3), (''SHL'', 3), (''SHR'', 3), (''SAR'', 3),
     (''KECCAK256'', 30),
     (''POP'', 2),
     (''MLOAD'', 3), (''MSTORE'', 3), (''MSTORE8'', 3), (''SLOAD'', 100), (''SSTORE'', 20000),
     (''JUMP'', 8), (''JUMPI'', 10),
     (''PC'', 2), (''MSIZE'', 2), (''GAS'', 2), (''JUMPDEST'', 1),
     (''CALL'', 700), (''CALLCODE'', 700), (''DELEGATECALL'', 700), (''STATICCALL'', 700),
     (''LOG0'', 375), (''LOG1'', 750), (''LOG2'', 1125), (''LOG3'', 1500), (''LOG4'', 1875),
     (''CREATE'', 32000), (''CREATE2'', 32000),
     (''RETURN'', 0), (''REVERT'', 0), (''INVALID'', 0), (''SELFDESTRUCT'', 5000)]"

record ContractAnalysisResponse =
  opcode_counts :: "(string \<times> nat) list"
  estimated_gas :: real
  recommendations :: "string list"

text \<open>The recommendation strings of \<^verbatim>\<open>analyze_bytecode\<close>; the first four are f-strings
  over a count.\<close>

definition sstore_msg :: "nat \<Rightarrow> string" where
  "sstore_msg sstore_count =
     ''Contract performs '' @ str_nat sstore_count @
     '' SSTORE operations. Consider reducing state writes or using cheaper storage patterns.''"

definition log_msg :: "nat \<Rightarrow> string" where
  "log_msg log_ops =
     ''Contract emits '' @ str_nat log_ops @
     '' LOG events. Excessive event logging can be costly; remove unneeded events.''"

definition call_msg :: "nat \<Rightarrow> string" where
  "call_msg call_ops =
     ''Detected '' @ str_nat call_ops @
     '' external call operations. External calls consume extra gas; minimize calls or batch operations.''"

definition unknown_msg :: "nat \<Rightarrow> string" where
  "unknown_msg unknown_ops =
     ''Found '' @ str_nat unknown_ops @
     '' unknown opcodes. Ensure the bytecode targets the correct EVM version and avoid obfuscated code.''"

definition fallback_msg :: string where
  "fallback_msg =
     ''No significant gas issues detected by heuristic analysis. '' @
     ''Consider using a formal optimizer or auditing tool for deeper insights.''"

text \<open>The body of \<^verbatim>\<open>for op in opcode_list\<close>: the state is the pair of the dictionary
  \<^verbatim>\<open>opcode_counts\<close> (here \<open>counts\<close>) and the sum \<^verbatim>\<open>estimated_gas\<close> (here \<open>gas\<close>).\<close>

definition tally :: "string \<Rightarrow> (string \<times> nat) list \<times> real \<Rightarrow> (string \<times> nat) list \<times> real" where
  "tally op st =
     (case st of (counts, gas) \<Rightarrow>
        (AList.update op (dict_get counts op 0 + 1) counts,
         gas + real_of_int (dict_get INTRINSIC_GAS_COSTS op 3)))"

text \<open>The four threshold rules over \<^verbatim>\<open>opcode_counts\<close>, each appending at most one string
  to \<^verbatim>\<open>recommendations\<close> (here \<open>recs\<close>), then the fallback when the list is still empty.\<close>

definition recommend :: "(string \<times> nat) list \<Rightarrow> string list" where
  "recommend counts =
     (let recs = [];
          sstore_count = dict_get counts ''SSTORE'' 0;
          recs = (if sstore_count > 10 then recs @ [sstore_msg sstore_count] else recs);
          log_ops = sum_list (map (\<lambda>i. dict_get counts (''LOG'' @ str_nat i) 0) [0 ..< 5]);
          recs = (if log_ops > 10 then recs @ [log_msg log_ops] else recs);
          call_ops = dict_get counts ''CALL'' 0 + dict_get counts ''DELEGATECALL'' 0
                     + dict_get counts ''STATICCALL'' 0;
          recs = (if call_ops > 5 then recs @ [call_msg call_ops] else recs);
          unknown_ops = dict_get counts ''UNKNOWN'' 0;
          recs = (if unknown_ops > 0 then recs @ [unknown_msg unknown_ops] else recs)
      in if recs = [] then recs @ [fallback_msg] else recs)"

definition analyze_bytecode :: "string \<Rightarrow> py_error + ContractAnalysisResponse" where
  "analyze_bytecode bytecode =
     (case decode_evm_bytecode bytecode of
        Inl e \<Rightarrow> Inl e
      | Inr opcode_list \<Rightarrow>
          (case fold tally opcode_list ([], 0) of (counts, gas) \<Rightarrow>
             Inr \<lparr>opcode_counts = counts, estimated_gas = gas,
                  recommendations = recommend counts\<rparr>))"

section \<open>Anomaly scoring\<close>

text \<open>\<^verbatim>\<open>statistics.mean\<close> and \<^verbatim>\<open>statistics.pstdev\<close> raise \<^verbatim>\<open>StatisticsError\<close> on an empty
  list; \<^verbatim>\<open>pstdev\<close> is the square root of the population variance.\<close>

definition statistics_mean :: "real list \<Rightarrow> py_error + real" where
  "statistics_mean data =
     (if data = [] then Inl StatisticsError else Inr (sum_list data / real (length data)))"

definition statistics_pstdev :: "real list \<Rightarrow> py_error + real" where
  "statistics_pstdev data =
     (if data = [] then Inl StatisticsError
      else (let mu = sum_list data / real (length data)
            in Inr (sqrt (sum_list (map (\<lambda>x. (x - mu)\<^sup>2) data) / real (length data)))))"

record AnomalyResponse =
  score :: real
  is_anomaly :: bool
  message :: string

text \<open>The default of the request field \<^verbatim>\<open>threshold\<close>.\<close>

definition default_threshold :: real where
  "default_threshold = 2"

text \<open>The endpoint \<^verbatim>\<open>anomaly\<close>, as a function of \<^verbatim>\<open>req.values\<close> (here \<open>vals\<close>) and
  \<^verbatim>\<open>req.threshold\<close>.\<close>

definition anomaly :: "real list \<Rightarrow> real \<Rightarrow> py_error + AnomalyResponse" where
  "anomaly vals threshold =
     (if length vals < 2 then
        Inr \<lparr>score = 0, is_anomaly = False, message = ''Not enough data''\<rparr>
      else
        (let window = butlast vals; current = last vals in
         case statistics_mean window of
           Inl e \<Rightarrow> Inl e
         | Inr mean \<Rightarrow>
             (case (if length window > 1 then statistics_pstdev window else Inr 0) of
                Inl e \<Rightarrow> Inl e
              | Inr stdev \<Rightarrow>
                  (let (sc, flag) =
                         (if stdev = 0 then (0, current \<noteq> mean)
                          else (let z = (current - mean) / stdev in (z, \<bar>z\<bar> \<ge> threshold)))
                   in Inr \<lparr>score = sc, is_anomaly = flag,
                            message = (if flag then ''Anomaly'' else ''Normal'')\<rparr>))))"

section \<open>Forecasting\<close>



section \<open>Liquidity and bridge analysis\<close>

record LiquidityEvent =
  protocol :: string
  chain_from :: string
  chain_to :: string
  token :: string
  amount :: real
  event_type :: string
  event_timestamp :: int

record BridgeFlow =
  flow_protocol :: string
  from_chain :: string
  to_chain :: string
  total_amount :: real

record LiquidityBridgeResponse =
  tvl_by_protocol :: "(string \<times> real) list"
  bridge_flows :: "BridgeFlow list"

text \<open>
  The body of \<^verbatim>\<open>for ev in events\<close>; the state is the pair of the dictionaries
  \<^verbatim>\<open>tvl_by_protocol\<close> (here \<open>tvl\<close>) and \<^verbatim>\<open>bridge_map\<close>. The first statement stores the
  protocol's key for every event; \<^verbatim>\<open>tvl_by_protocol[protocol] += x\<close> then reads a key
  that is present.
\<close>

definition liquidity_step ::
  "LiquidityEvent \<Rightarrow> (string \<times> real) list \<times> ((string \<times> string \<times> string) \<times> real) list \<Rightarrow>
   (string \<times> real) list \<times> ((string \<times> string \<times> string) \<times> real) list" where
  "liquidity_step ev st =
     (case st of (tvl0, bridge_map) \<Rightarrow>
        (let p = protocol ev;
             tvl = AList.update p (dict_get tvl0 p 0) tvl0
         in if event_type ev = ''stake'' then
              (AList.update p (dict_get tvl p 0 + amount ev) tvl, bridge_map)
            else if event_type ev = ''unstake'' then
              (AList.update p (dict_get tvl p 0 - amount ev) tvl, bridge_map)
            else if event_type ev = ''bridge_out'' then
              (let key = (p, chain_from ev, chain_to ev)
               in (AList.update p (dict_get tvl p 0 - amount ev) tvl,
                   AList.update key (dict_get bridge_map key 0 + amount ev) bridge_map))
            else if event_type ev = ''bridge_in'' then
              (let key = (p, chain_from ev, chain_to ev)
               in (AList.update p (dict_get tvl p 0 + amount ev) tvl,
                   AList.update key (dict_get bridge_map key 0 + amount ev) bridge_map))
            else (tvl, bridge_map)))"

definition analyze_liquidity_bridge :: "LiquidityEvent list \<Rightarrow> LiquidityBridgeResponse" where
  "analyze_liquidity_bridge events =
     (case fold liquidity_step events ([], []) of (tvl, bridge_map) \<Rightarrow>
        \<lparr>tvl_by_protocol = tvl,
         bridge_flows =
           map (\<lambda>((p, f, t), total).
                  \<lparr>flow_protocol = p, from_chain = f, to_chain = t, total_amount = total\<rparr>)
               bridge_map\<rparr>)"

section \<open>MEV and bot detection\<close>


















section \<open>Notions used to state the properties\<close>

text \<open>The fixed mnemonic set of the decoder: the four numbered families and the names of
  \<^verbatim>\<open>OPCODE_MAP\<close>.\<close>

definition mnemonics :: "string list" where
  "mnemonics =
     map (\<lambda>k. ''PUSH'' @ str_nat k) [1 ..< 33] @
     map (\<lambda>k. ''DUP'' @ str_nat k) [1 ..< 17] @
     map (\<lambda>k. ''SWAP'' @ str_nat k) [1 ..< 17] @
     map (\<lambda>k. ''LOG'' @ str_nat k) [0 ..< 5] @
     map snd OPCODE_MAP"

text \<open>A valid hex string has hexadecimal digits only; a chunk is a byte when \<^verbatim>\<open>int\<close>
  reads it as a number from 0 to 255.\<close>

definition valid_hex :: "string \<Rightarrow> bool" where
  "valid_hex code = list_all (\<lambda>c. hex_digit c \<noteq> None) code"

definition byte_chunk :: "string \<Rightarrow> bool" where
  "byte_chunk ch = (\<exists>v. int16 ch = Inr v \<and> 0 \<le> v \<and> v \<le> 255)"

text \<open>One iteration of the decoder's loop, read off its branches: the name it appends for
  a byte value and the distance it moves the cursor. \<open>decode_loop_step\<close> below ties both
  to \<open>decode_loop\<close>.\<close>

definition opcode_name :: "int \<Rightarrow> string" where
  "opcode_name v =
     (if 0x60 \<le> v \<and> v \<le> 0x7f then ''PUSH'' @ str_int (v - 0x5f)
      else if 0x80 \<le> v \<and> v \<le> 0x8f then ''DUP'' @ str_int (v - 0x7f)
      else if 0x90 \<le> v \<and> v \<le> 0x9f then ''SWAP'' @ str_int (v - 0x8f)
      else if 0xa0 \<le> v \<and> v \<le> 0xa4 then ''LOG'' @ str_int (v - 0xa0)
      else dict_get OPCODE_MAP v ''UNKNOWN'')"

definition cursor_advance :: "int \<Rightarrow> nat" where
  "cursor_advance v = (if 0x60 \<le> v \<and> v \<le> 0x7f then 1 + nat (v - 0x5f) else 1)"

text \<open>At least one of the four threshold rules holds of an opcode sequence.\<close>

definition rule_fired :: "string list \<Rightarrow> bool" where
  "rule_fired opcode_list =
     (count_list opcode_list ''SSTORE'' > 10
      \<or> count_list opcode_list ''LOG0'' + count_list opcode_list ''LOG1''
          + count_list opcode_list ''LOG2'' + count_list opcode_list ''LOG3''
          + count_list opcode_list ''LOG4'' > 10
      \<or> count_list opcode_list ''CALL'' + count_list opcode_list ''DELEGATECALL''
          + count_list opcode_list ''STATICCALL'' > 5
      \<or> count_list opcode_list ''UNKNOWN'' > 0)"

text \<open>The event types the liquidity analysis knows, and the signed amount an event adds
  to its protocol's total.\<close>

definition recognized :: "LiquidityEvent \<Rightarrow> bool" where
  "recognized ev =
     (event_type ev = ''stake'' \<or> event_type ev = ''unstake''
      \<or> event_type ev = ''bridge_out'' \<or> event_type ev = ''bridge_in'')"

definition tvl_delta :: "LiquidityEvent \<Rightarrow> real" where
  "tvl_delta ev =
     (if event_type ev = ''stake'' then amount ev
      else if event_type ev = ''unstake'' then - amount ev
      else if event_type ev = ''bridge_out'' then - amount ev
      else if event_type ev = ''bridge_in'' then amount ev
      else 0)"

section \<open>Dictionaries and rendered numbers\<close>

lemma dict_get_update:
  "dict_get (AList.update k v d) k' dflt = (if k' = k then v else dict_get d k' dflt)"
  by (simp add: dict_get_def update_conv')

lemma dict_get_Nil: "dict_get [] k dflt = dflt"
  by (simp add: dict_get_def)

lemma dict_get_cases: "dict_get d k dflt = dflt \<or> dict_get d k dflt \<in> snd ` set d"
  by (auto simp: dict_get_def split: option.splits dest!: map_of_SomeD intro: rev_image_eqI)

lemma keys_update: "fst ` set (AList.update k v d) = insert k (fst ` set d)"
  by (induction d) auto

lemma str_int_nonneg: "0 \<le> i \<Longrightarrow> str_int i = str_nat (nat i)"
  by (simp add: str_int_def)

lemma str_nat_nonempty: "str_nat n \<noteq> []"
  by (subst str_nat.simps) simp

lemma digit_char_inj: "a < 10 \<Longrightarrow> b < 10 \<Longrightarrow> digit_char a = digit_char b \<Longrightarrow> a = b"
proof -
  assume a: "a < 10" and b: "b < 10" and e: "digit_char a = digit_char b"
  from e have "(of_char (digit_char a) :: nat) = of_char (digit_char b)" by simp
  with a b show ?thesis by (simp add: digit_char_def)
qed

lemma str_nat_inj: "str_nat n = str_nat m \<Longrightarrow> n = m"
proof (induction n arbitrary: m rule: less_induct)
  case (less n)
  show ?case
  proof (cases "n < 10")
    case True
    show ?thesis
    proof (cases "m < 10")
      case mT: True
      from less.prems True mT have "digit_char n = digit_char m"
        by (simp add: str_nat.simps [of n] str_nat.simps [of m])
      with True mT show ?thesis by (simp add: digit_char_inj)
    next
      case False
      with less.prems True str_nat_nonempty [of "m div 10"] show ?thesis
        by (simp add: str_nat.simps [of n] str_nat.simps [of m] del: str_nat.simps)
    qed
  next
    case False
    show ?thesis
    proof (cases "m < 10")
      case True
      with less.prems False str_nat_nonempty [of "n div 10"] show ?thesis
        by (simp add: str_nat.simps [of n] str_nat.simps [of m] del: str_nat.simps)
    next
      case mF: False
      from less.prems False mF
      have e: "str_nat (n div 10) = str_nat (m div 10)" "digit_char (n mod 10) = digit_char (m mod 10)"
        by (simp_all add: str_nat.simps [of n] str_nat.simps [of m] del: str_nat.simps)
      from False have "n div 10 < n" by simp
      from less.IH [OF this e(1)] have "n div 10 = m div 10" .
      moreover from e(2) have "n mod 10 = m mod 10" by (auto intro: digit_char_inj)
      ultimately show ?thesis by (metis div_mult_mod_eq)
    qed
  qed
qed

section \<open>The decoder: chunks, one step, the whole loop\<close>

lemma bytes_seq_of_Nil: "bytes_seq_of [] = []"
  by (simp add: bytes_seq_of_def)

lemma bytes_seq_of_single: "bytes_seq_of [c] = [[c]]"
  by (simp add: bytes_seq_of_def)

lemma bytes_seq_of_Cons2: "bytes_seq_of (a # b # cs) = [a, b] # bytes_seq_of cs"
proof -
  have "[0 ..< (length (a # b # cs) + 1) div 2] = 0 # map Suc [0 ..< (length cs + 1) div 2]"
    by (simp add: upt_conv_Cons map_Suc_upt del: upt_Suc)
  then show ?thesis
    by (simp add: bytes_seq_of_def comp_def del: upt_Suc)
qed

lemma length_bytes_seq_of: "length (bytes_seq_of code) = (length code + 1) div 2"
  by (simp add: bytes_seq_of_def)

lemma bytes_seq_of_append:
  "even (length xs) \<Longrightarrow> bytes_seq_of (xs @ ys) = bytes_seq_of xs @ bytes_seq_of ys"
proof (induction xs rule: induct_list012)
  case 1
  show ?case by (simp add: bytes_seq_of_Nil)
next
  case (2 x)
  then show ?case by simp
next
  case (3 x y zs)
  then show ?case by (simp add: bytes_seq_of_Cons2)
qed

lemma hex_digit_less: "hex_digit c = Some d \<Longrightarrow> d < 16"
  by (auto simp: hex_digit_def Let_def split: if_splits)

lemma byte_chunk_single: "hex_digit c \<noteq> None \<Longrightarrow> byte_chunk [c]"
proof -
  assume "hex_digit c \<noteq> None"
  then obtain d where d: "hex_digit c = Some d" by auto
  then have "d < 16" by (rule hex_digit_less)
  with d show ?thesis by (simp add: byte_chunk_def)
qed

lemma byte_chunk_pair: "hex_digit a \<noteq> None \<Longrightarrow> hex_digit b \<noteq> None \<Longrightarrow> byte_chunk [a, b]"
proof -
  assume "hex_digit a \<noteq> None" "hex_digit b \<noteq> None"
  then obtain x y where xy: "hex_digit a = Some x" "hex_digit b = Some y" by auto
  then have "x < 16" "y < 16" by (auto dest: hex_digit_less)
  with xy show ?thesis by (simp add: byte_chunk_def)
qed

lemma valid_hex_chunks: "valid_hex code \<Longrightarrow> list_all byte_chunk (bytes_seq_of code)"
proof (induction code rule: induct_list012)
  case 1
  show ?case by (simp add: bytes_seq_of_Nil)
next
  case (2 c)
  then show ?case by (simp add: bytes_seq_of_single valid_hex_def byte_chunk_single)
next
  case (3 a b cs)
  then show ?case by (simp add: bytes_seq_of_Cons2 valid_hex_def byte_chunk_pair)
qed

lemma push_in_mnemonics:
  assumes "96 \<le> v" "v \<le> 127"
  shows "''PUSH'' @ str_int (v - 95) \<in> set mnemonics"
proof -
  from assms have "nat (v - 95) \<in> set [1 ..< 33]" by auto
  then have "''PUSH'' @ str_nat (nat (v - 95)) \<in> (\<lambda>k. ''PUSH'' @ str_nat k) ` set [1 ..< 33]"
    by (rule imageI)
  with assms show ?thesis
    unfolding mnemonics_def set_append set_map by (simp only: str_int_nonneg Un_iff simp_thms) 
qed

lemma dup_in_mnemonics:
  assumes "128 \<le> v" "v \<le> 143"
  shows "''DUP'' @ str_int (v - 127) \<in> set mnemonics"
proof -
  from assms have "nat (v - 127) \<in> set [1 ..< 17]" by auto
  then have "''DUP'' @ str_nat (nat (v - 127)) \<in> (\<lambda>k. ''DUP'' @ str_nat k) ` set [1 ..< 17]"
    by (rule imageI)
  moreover from assms have "str_int (v - 127) = str_nat (nat (v - 127))"
    by (simp add: str_int_nonneg)
  ultimately show ?thesis
    unfolding mnemonics_def set_append set_map by (simp only: Un_iff simp_thms)
qed


lemma swap_in_mnemonics:
  assumes "144 \<le> v" "v \<le> 159"
  shows "''SWAP'' @ str_int (v - 143) \<in> set mnemonics"
proof -
  from assms have "nat (v - 143) \<in> set [1 ..< 17]" by auto
  then have "''SWAP'' @ str_nat (nat (v - 143)) \<in> (\<lambda>k. ''SWAP'' @ str_nat k) ` set [1 ..< 17]"
    by (rule imageI)
  moreover from assms have "str_int (v - 143) = str_nat (nat (v - 143))"
    by (simp add: str_int_nonneg)
  ultimately show ?thesis
    unfolding mnemonics_def set_append set_map by (simp only: Un_iff simp_thms)
qed

lemma log_in_mnemonics:
  assumes "160 \<le> v" "v \<le> 164"
  shows "''LOG'' @ str_int (v - 160) \<in> set mnemonics"
proof -
  from assms have "nat (v - 160) \<in> set [0 ..< 5]" by auto
  then have "''LOG'' @ str_nat (nat (v - 160)) \<in> (\<lambda>k. ''LOG'' @ str_nat k) ` set [0 ..< 5]"
    by (rule imageI)
  moreover from assms have "str_int (v - 160) = str_nat (nat (v - 160))"
    by (simp add: str_int_nonneg)
  ultimately show ?thesis
    unfolding mnemonics_def set_append set_map by (simp only: Un_iff simp_thms)
qed

lemma opcode_map_in_mnemonics:
  "dict_get OPCODE_MAP v ''UNKNOWN'' \<in> insert ''UNKNOWN'' (set mnemonics)"
  using dict_get_cases [of OPCODE_MAP v "''UNKNOWN''"]
  unfolding mnemonics_def set_append set_map by blast

lemma decode_loop_step:
  "i < length bytes_seq \<Longrightarrow> int16 (bytes_seq ! i) = Inr v \<Longrightarrow>
   decode_loop bytes_seq i opcodes =
   decode_loop bytes_seq (i + cursor_advance v) (opcodes @ [opcode_name v])"
  by (subst decode_loop.simps) (simp add: opcode_name_def cursor_advance_def)

lemma decode_loop_error:
  "i < length bytes_seq \<Longrightarrow> int16 (bytes_seq ! i) = Inl e \<Longrightarrow> decode_loop bytes_seq i opcodes = Inl e"
  by (subst decode_loop.simps) simp

lemma decode_loop_done: "\<not> i < length bytes_seq \<Longrightarrow> decode_loop bytes_seq i opcodes = Inr opcodes"
  by (subst decode_loop.simps) simp

lemma cursor_advance_pos: "0 < cursor_advance v"
  by (simp add: cursor_advance_def)

lemma opcode_name_in_mnemonics:
  "opcode_name v \<in> insert ''UNKNOWN'' (set mnemonics)"
  unfolding opcode_name_def
  using push_in_mnemonics [of v] dup_in_mnemonics [of v] swap_in_mnemonics [of v]
    log_in_mnemonics [of v] opcode_map_in_mnemonics [of v]
  by (simp only: insert_iff split: if_split) blast

lemma decode_loop_total:
  "list_all byte_chunk bytes_seq \<Longrightarrow> set opcodes \<subseteq> insert ''UNKNOWN'' (set mnemonics) \<Longrightarrow>
   \<exists>r. decode_loop bytes_seq i opcodes = Inr r \<and> set r \<subseteq> insert ''UNKNOWN'' (set mnemonics)"
proof (induction "length bytes_seq - i" arbitrary: i opcodes rule: less_induct)
  case less
  show ?case
  proof (cases "i < length bytes_seq")
    case False
    with less.prems(2) show ?thesis by (simp add: decode_loop_done)
  next
    case True
    with less.prems(1) have "byte_chunk (bytes_seq ! i)" by (simp add: list_all_length)
    then obtain v where v: "int16 (bytes_seq ! i) = Inr v"
      unfolding byte_chunk_def by blast
    have smaller: "length bytes_seq - (i + cursor_advance v) < length bytes_seq - i"
      using True cursor_advance_pos [of v] by arith
    have "set (opcodes @ [opcode_name v]) \<subseteq> insert ''UNKNOWN'' (set mnemonics)"
      using less.prems(2) opcode_name_in_mnemonics [of v] by simp
    from less.hyps [OF smaller less.prems(1) this] show ?thesis
      by (simp add: decode_loop_step [OF True v])
  qed
qed

lemma decode_loop_length:
  "decode_loop bytes_seq i opcodes = Inr r \<Longrightarrow> length r \<le> length opcodes + (length bytes_seq - i)"
proof (induction "length bytes_seq - i" arbitrary: i opcodes rule: less_induct)
  case less
  show ?case
  proof (cases "i < length bytes_seq")
    case False
    with less.prems show ?thesis by (simp add: decode_loop_done)
  next
    case True
    show ?thesis
    proof (cases "int16 (bytes_seq ! i)")
      case (Inl e)
      with True less.prems show ?thesis by (simp add: decode_loop_error)
    next
      case (Inr v)
      have smaller: "length bytes_seq - (i + cursor_advance v) < length bytes_seq - i"
        using True cursor_advance_pos [of v] by arith
      from less.prems have "decode_loop bytes_seq (i + cursor_advance v) (opcodes @ [opcode_name v]) = Inr r"
        by (simp add: decode_loop_step [OF True Inr])
      from less.hyps [OF smaller this] True cursor_advance_pos [of v] show ?thesis
        by simp
    qed
  qed
qed

lemma decode_loop_cong:
  "length bs = length bs' \<Longrightarrow> \<forall>k<length bs. int16 (bs ! k) = int16 (bs' ! k) \<Longrightarrow>
   decode_loop bs i opcodes = decode_loop bs' i opcodes"
proof (induction "length bs - i" arbitrary: i opcodes rule: less_induct)
  case less
  show ?case
  proof (cases "i < length bs")
    case False
    with less.prems(1) show ?thesis by (simp add: decode_loop_done)
  next
    case True
    then have same: "int16 (bs' ! i) = int16 (bs ! i)" and True': "i < length bs'"
      using less.prems by simp_all
    show ?thesis
    proof (cases "int16 (bs ! i)")
      case (Inl e)
      with True True' same show ?thesis by (simp add: decode_loop_error)
    next
      case (Inr v)
      have smaller: "length bs - (i + cursor_advance v) < length bs - i"
        using True cursor_advance_pos [of v] by arith
      from Inr same have Inr': "int16 (bs' ! i) = Inr v" by simp
      show ?thesis
        unfolding decode_loop_step [OF True Inr] decode_loop_step [OF True' Inr']
        by (rule less.hyps [OF smaller less.prems])
    qed
  qed
qed

lemma valid_hex_no_prefix: "valid_hex s \<Longrightarrow> take 2 s \<noteq> ''0x''"
proof
  assume v: "valid_hex s" and t: "take 2 s = ''0x''"
  then obtain r where "s = CHR ''0'' # CHR ''x'' # r"
    by (cases s; cases "tl s") auto
  with v show False by (simp add: valid_hex_def hex_digit_def)
qed

lemma strip_plain: "valid_hex code \<Longrightarrow> decode_evm_bytecode code = decode_loop (bytes_seq_of code) 0 []"
  by (simp add: decode_evm_bytecode_def valid_hex_no_prefix)

lemma strip_0x: "decode_evm_bytecode (''0x'' @ code) = decode_loop (bytes_seq_of code) 0 []"
  by (simp add: decode_evm_bytecode_def)

lemma int16_pad: "hex_digit c \<noteq> None \<Longrightarrow> int16 [CHR ''0'', c] = int16 [c]"
  by (auto simp: hex_digit_def)

lemma odd_chunks:
  assumes "valid_hex code" "odd (length code)"
  shows "decode_loop (bytes_seq_of code) 0 [] =
         decode_loop (bytes_seq_of (butlast code @ [CHR ''0'', last code])) 0 []"
proof -
  from assms(2) have ne: "code \<noteq> []" by auto
  then have split: "code = butlast code @ [last code]" by simp
  from assms(2) ne have ev: "even (length (butlast code))" by simp
  from assms(1) ne have hx: "hex_digit (last code) \<noteq> None"
    by (simp add: valid_hex_def list_all_iff)
  have l: "bytes_seq_of code = bytes_seq_of (butlast code) @ [[last code]]"
    using bytes_seq_of_append [OF ev, of "[last code]"] split by (simp add: bytes_seq_of_single)
  have r: "bytes_seq_of (butlast code @ [CHR ''0'', last code]) =
           bytes_seq_of (butlast code) @ [[CHR ''0'', last code]]"
    using bytes_seq_of_append [OF ev, of "[CHR ''0'', last code]"]
    by (simp add: bytes_seq_of_Cons2 bytes_seq_of_Nil)
  show ?thesis
    unfolding l r
    by (rule decode_loop_cong) (auto simp: nth_append int16_pad [OF hx] simp del: int16.simps)
qed

section \<open>Odd-length input\<close>

text \<open>
  Claim C2, as the code has it. When the hex portion has an odd number of hex digits,
  the slicing leaves the last digit as a chunk of its own and \<^verbatim>\<open>int\<close> reads it as the byte
  whose value is that digit. The digit is not dropped: the decoded sequence is that of
  the same string with a \<open>0\<close> put before its last character.
\<close>

theorem odd_hex_last_digit_decoded:
  assumes "valid_hex code" and "odd (length code)" and "pre = [] \<or> pre = ''0x''"
  shows "decode_evm_bytecode (pre @ code) =
         decode_evm_bytecode (pre @ butlast code @ [CHR ''0'', last code])"
proof -
  from assms(2) have ne: "code \<noteq> []" by auto
  with assms(1) have v': "valid_hex (butlast code @ [CHR ''0'', last code])"
    by (auto simp: valid_hex_def list_all_iff hex_digit_def dest: in_set_butlastD)
  from assms(3) show ?thesis
  proof
    assume "pre = []"
    then show ?thesis
      using odd_chunks [OF assms(1,2)] by (simp add: strip_plain assms(1) strip_plain [OF v'])
  next
    assume "pre = ''0x''"
    then show ?thesis
      using odd_chunks [OF assms(1,2)] strip_0x [of code]
        strip_0x [of "butlast code @ [CHR ''0'', last code]"] by simp
  qed
qed

theorem odd_hex_last_digit_decoded_witness:
  "decode_evm_bytecode ''0x5b5'' = decode_evm_bytecode ''0x5b05''"
  using odd_hex_last_digit_decoded [of "''5b5''" "''0x''"]
  by (simp add: valid_hex_def hex_digit_def)

text \<open>
  Claim C2, as stated, fails: \<^verbatim>\<open>0x5b5\<close> decodes to \<open>JUMPDEST\<close> followed by \<open>SDIV\<close> (the
  lone digit 5 read as the byte 0x05), while \<^verbatim>\<open>0x5b\<close>, the same string without its last
  character, decodes to \<open>JUMPDEST\<close> alone.
\<close>

theorem odd_hex_not_truncated:
  "decode_evm_bytecode ''0x5b5'' = Inr [''JUMPDEST'', ''SDIV''] \<and>
   decode_evm_bytecode ''0x5b'' = Inr [''JUMPDEST''] \<and>
   decode_evm_bytecode ''0x5b5'' \<noteq> decode_evm_bytecode ''0x5b''"
  by code_simp

section \<open>Push operands and the length of the decode\<close>

text \<open>
  Claim C4. When the cursor stands on a byte from 0x60 to 0x7f, the loop appends
  \<open>PUSHk\<close> with \<open>k = byte - 0x5f\<close> and goes on from the cursor moved by \<open>k + 1\<close>; when
  fewer than \<open>k\<close> chunks remain, the moved cursor is past the end and the loop returns
  there. A decode that returns has at most as many opcodes as the input has chunks,
  which is at most half the length of the input string, rounded up.
\<close>

theorem push_skips_operand:
  "(i < length bytes_seq \<and> int16 (bytes_seq ! i) = Inr byte_val \<and> 0x60 \<le> byte_val \<and> byte_val \<le> 0x7f \<longrightarrow>
      decode_loop bytes_seq i opcodes =
      decode_loop bytes_seq (i + (nat (byte_val - 0x5f) + 1)) (opcodes @ [''PUSH'' @ str_int (byte_val - 0x5f)]) \<and>
      (length bytes_seq \<le> i + (nat (byte_val - 0x5f) + 1) \<longrightarrow>
         decode_loop bytes_seq i opcodes = Inr (opcodes @ [''PUSH'' @ str_int (byte_val - 0x5f)]))) \<and>
   (decode_loop bytes_seq 0 [] = Inr r \<longrightarrow> length r \<le> length bytes_seq) \<and>
   (decode_evm_bytecode bytecode = Inr r' \<longrightarrow> length r' \<le> (length bytecode + 1) div 2)"
proof (intro conjI impI)
  assume a: "i < length bytes_seq \<and> int16 (bytes_seq ! i) = Inr byte_val \<and> 0x60 \<le> byte_val \<and> byte_val \<le> 0x7f"
  then show step: "decode_loop bytes_seq i opcodes =
      decode_loop bytes_seq (i + (nat (byte_val - 0x5f) + 1)) (opcodes @ [''PUSH'' @ str_int (byte_val - 0x5f)])"
    using decode_loop_step [of i bytes_seq byte_val opcodes]
    by (simp add: opcode_name_def cursor_advance_def)
  assume "length bytes_seq \<le> i + (nat (byte_val - 0x5f) + 1)"
  then show "decode_loop bytes_seq i opcodes = Inr (opcodes @ [''PUSH'' @ str_int (byte_val - 0x5f)])"
    unfolding step by (simp add: decode_loop_done)
next
  assume "decode_loop bytes_seq 0 [] = Inr r"
  from decode_loop_length [OF this] show "length r \<le> length bytes_seq" by simp
next
  assume d: "decode_evm_bytecode bytecode = Inr r'"
  let ?code = "if take 2 bytecode = ''0x'' then drop 2 bytecode else bytecode"
  from d have "decode_loop (bytes_seq_of ?code) 0 [] = Inr r'"
    by (simp add: decode_evm_bytecode_def Let_def)
  from decode_loop_length [OF this] have "length r' \<le> (length ?code + 1) div 2"
    by (simp add: length_bytes_seq_of)
  also have "\<dots> \<le> (length bytecode + 1) div 2"
    by (rule div_le_mono) simp
  finally show "length r' \<le> (length bytecode + 1) div 2" .
qed

theorem push_skips_operand_witness:
  "decode_loop [''7f'', ''01''] 0 [] = decode_loop [''7f'', ''01''] 33 [''PUSH32''] \<and>
   decode_loop [''7f'', ''01''] 0 [] = Inr [''PUSH32''] \<and>
   length [''PUSH32''] \<le> length [''7f'', ''01''] \<and>
   length [''PUSH32''] \<le> (length ''0x7f01'' + 1) div 2"
proof -
  have d: "decode_loop [''7f'', ''01''] 0 [] = Inr [''PUSH32'']" by code_simp
  have e: "decode_evm_bytecode ''0x7f01'' = Inr [''PUSH32'']" by code_simp
  have i: "int16 ''7f'' = Inr 127" by code_simp
  have s: "str_int 32 = ''32''" by code_simp
  show ?thesis
    using push_skips_operand [of 0 "[''7f'', ''01'']" 127 "[]" "[''PUSH32'']" "''0x7f01''" "[''PUSH32'']"] d e
    by (simp add: i s del: int16.simps)
qed

section \<open>Totality on valid hex strings\<close>

text \<open>
  Claim C5. For every string of hexadecimal digits, with or without the prefix \<^verbatim>\<open>0x\<close>,
  the decoder returns a list (it does not raise), and every name in the list is a
  mnemonic of the fixed set or \<open>UNKNOWN\<close>. The decoder is a function of its input, so it
  is deterministic.
\<close>

theorem decode_total_on_hex:
  assumes "valid_hex code" and "pre = [] \<or> pre = ''0x''"
  shows "\<exists>opcodes. decode_evm_bytecode (pre @ code) = Inr opcodes \<and>
           set opcodes \<subseteq> insert ''UNKNOWN'' (set mnemonics)"
proof -
  have "\<exists>r. decode_loop (bytes_seq_of code) 0 [] = Inr r \<and> set r \<subseteq> insert ''UNKNOWN'' (set mnemonics)"
    by (rule decode_loop_total [OF valid_hex_chunks [OF assms(1)]]) simp
  with assms(2) show ?thesis
    using strip_plain [OF assms(1)] strip_0x [of code] by auto
qed

theorem decode_total_on_hex_witness:
  "\<exists>opcodes. decode_evm_bytecode ''0x60ff0c'' = Inr opcodes \<and>
     set opcodes \<subseteq> insert ''UNKNOWN'' (set mnemonics)"
  using decode_total_on_hex [of "''60ff0c''" "''0x''"]
  by (simp add: valid_hex_def hex_digit_def)

section \<open>The analyzer: counts, gas and recommendations\<close>

lemma tally_pair:
  "tally op (counts, gas) =
     (AList.update op (dict_get counts op 0 + 1) counts,
      gas + real_of_int (dict_get INTRINSIC_GAS_COSTS op 3))"
  by (simp add: tally_def)

lemma fold_tally_counts:
  "dict_get (fst (fold tally ops st)) k 0 = dict_get (fst st) k 0 + count_list ops k"
proof (induction ops arbitrary: st)
  case Nil
  show ?case by simp
next
  case (Cons op ops)
  obtain counts gas where st: "st = (counts, gas)" by (cases st)
  show ?case
    by (simp add: Cons.IH st tally_pair dict_get_update)
qed

lemma fold_tally_gas:
  "snd (fold tally ops st) = snd st + (\<Sum>op\<leftarrow>ops. real_of_int (dict_get INTRINSIC_GAS_COSTS op 3))"
proof (induction ops arbitrary: st)
  case Nil
  show ?case by simp
next
  case (Cons op ops)
  obtain counts gas where st: "st = (counts, gas)" by (cases st)
  show ?case
    by (simp add: Cons.IH st tally_pair)
qed

lemma analyze_bytecode_Inr:
  assumes "decode_evm_bytecode bytecode = Inr opcode_list"
  shows "analyze_bytecode bytecode =
         Inr \<lparr>opcode_counts = fst (fold tally opcode_list ([], 0)),
              estimated_gas = snd (fold tally opcode_list ([], 0)),
              recommendations = recommend (fst (fold tally opcode_list ([], 0)))\<rparr>"
  using assms by (simp add: analyze_bytecode_def split: prod.splits)

lemma tallied_count:
  "dict_get (fst (fold tally opcode_list ([], 0))) k 0 = count_list opcode_list k"
  by (simp add: fold_tally_counts dict_get_Nil)

text \<open>
  Claim C3. Whenever the decoder returns an opcode sequence, \<^verbatim>\<open>estimated_gas\<close> is the sum,
  over every element of that sequence in turn, of the opcode's entry in
  \<^verbatim>\<open>INTRINSIC_GAS_COSTS\<close>, or 3 when the table has no entry. The input \<^verbatim>\<open>0x6001600201\<close>
  decodes to \<open>PUSH1\<close>, \<open>PUSH1\<close>, \<open>ADD\<close> and its estimated gas is 9.
\<close>

theorem estimated_gas_sums_every_occurrence:
  "(decode_evm_bytecode bytecode = Inr opcode_list \<longrightarrow>
      (\<exists>r. analyze_bytecode bytecode = Inr r \<and>
           estimated_gas r = (\<Sum>op\<leftarrow>opcode_list. real_of_int (dict_get INTRINSIC_GAS_COSTS op 3)))) \<and>
   decode_evm_bytecode ''0x6001600201'' = Inr [''PUSH1'', ''PUSH1'', ''ADD''] \<and>
   map_sum id estimated_gas (analyze_bytecode ''0x6001600201'') = Inr 9"
proof (intro conjI impI)
  assume "decode_evm_bytecode bytecode = Inr opcode_list"
  then show "\<exists>r. analyze_bytecode bytecode = Inr r \<and>
           estimated_gas r = (\<Sum>op\<leftarrow>opcode_list. real_of_int (dict_get INTRINSIC_GAS_COSTS op 3))"
    by (simp add: analyze_bytecode_Inr fold_tally_gas)
next
  show "decode_evm_bytecode ''0x6001600201'' = Inr [''PUSH1'', ''PUSH1'', ''ADD'']"
    by code_simp
next
  show "map_sum id estimated_gas (analyze_bytecode ''0x6001600201'') = Inr 9"
    by code_simp
qed

theorem estimated_gas_sums_every_occurrence_witness:
  "\<exists>r. analyze_bytecode ''0x55555b'' = Inr r \<and> estimated_gas r = 20000 + 20000 + 1"
proof -
  have d: "decode_evm_bytecode ''0x55555b'' = Inr [''SSTORE'', ''SSTORE'', ''JUMPDEST'']"
    by code_simp
  have g: "(\<Sum>op\<leftarrow>[''SSTORE'', ''SSTORE'', ''JUMPDEST'']. real_of_int (dict_get INTRINSIC_GAS_COSTS op 3)) = 20000 + 20000 + 1"
    by code_simp
  from estimated_gas_sums_every_occurrence [of "''0x55555b''" "[''SSTORE'', ''SSTORE'', ''JUMPDEST'']"] d
  show ?thesis unfolding g by blast
qed

lemma sstore_msg_inj: "sstore_msg n = sstore_msg m \<Longrightarrow> n = m"
  by (simp add: sstore_msg_def str_nat_inj del: str_nat.simps)

lemma sstore_log: "sstore_msg n \<noteq> log_msg m"
  by (simp add: sstore_msg_def log_msg_def del: str_nat.simps)

lemma sstore_call: "sstore_msg n \<noteq> call_msg m"
  by (simp add: sstore_msg_def call_msg_def del: str_nat.simps)

lemma sstore_unknown: "sstore_msg n \<noteq> unknown_msg m"
  by (simp add: sstore_msg_def unknown_msg_def del: str_nat.simps)

lemma sstore_fallback: "sstore_msg n \<noteq> fallback_msg"
  by (simp add: sstore_msg_def fallback_msg_def del: str_nat.simps)

lemma fallback_log: "fallback_msg \<noteq> log_msg m"
  by (simp add: fallback_msg_def log_msg_def del: str_nat.simps)

lemma fallback_call: "fallback_msg \<noteq> call_msg m"
  by (simp add: fallback_msg_def call_msg_def del: str_nat.simps)

lemma fallback_unknown: "fallback_msg \<noteq> unknown_msg m"
  by (simp add: fallback_msg_def unknown_msg_def del: str_nat.simps)

lemma sstore_in_recommend:
  "sstore_msg n \<in> set (recommend counts) \<longleftrightarrow>
   10 < dict_get counts ''SSTORE'' 0 \<and> n = dict_get counts ''SSTORE'' 0"
  unfolding recommend_def Let_def
  by (auto simp: sstore_log sstore_call sstore_unknown sstore_fallback dest: sstore_msg_inj
      simp del: str_nat.simps upt_Suc)

text \<open>
  Claim C6. Whenever the decoder returns an opcode sequence, the recommendations hold
  the SSTORE message for a count \<open>n\<close> exactly when the sequence has more than 10
  occurrences of \<open>SSTORE\<close> and \<open>n\<close> is their number. So 11 occurrences give the message
  with the count 11, and 10 occurrences give no SSTORE message.
\<close>

theorem sstore_rule_strict:
  assumes "decode_evm_bytecode bytecode = Inr opcode_list"
  shows "\<exists>r. analyze_bytecode bytecode = Inr r \<and>
           (\<forall>n. sstore_msg n \<in> set (recommendations r) \<longleftrightarrow>
                10 < count_list opcode_list ''SSTORE'' \<and> n = count_list opcode_list ''SSTORE'')"
  by (simp add: analyze_bytecode_Inr [OF assms] sstore_in_recommend tallied_count
      del: str_nat.simps)

theorem sstore_rule_strict_witness:
  "(\<exists>r. analyze_bytecode ''0x5555555555555555555555'' = Inr r \<and>
        (\<forall>n. sstore_msg n \<in> set (recommendations r) \<longleftrightarrow> n = 11)) \<and>
   (\<exists>r. analyze_bytecode ''0x55555555555555555555'' = Inr r \<and>
        (\<forall>n. sstore_msg n \<notin> set (recommendations r)))"
proof -
  have d11: "decode_evm_bytecode ''0x5555555555555555555555'' = Inr (replicate 11 ''SSTORE'')"
    by code_simp
  have d10: "decode_evm_bytecode ''0x55555555555555555555'' = Inr (replicate 10 ''SSTORE'')"
    by code_simp
  have c11: "count_list (replicate 11 ''SSTORE'') ''SSTORE'' = 11" by code_simp
  have c10: "count_list (replicate 10 ''SSTORE'') ''SSTORE'' = 10" by code_simp
  show ?thesis
    using sstore_rule_strict [OF d11] sstore_rule_strict [OF d10]
    unfolding c11 c10 by simp
qed

lemma log_ops_sum:
  "(\<Sum>i\<leftarrow>[0 ..< 5]. dict_get counts (''LOG'' @ str_nat i) 0) =
     dict_get counts ''LOG0'' 0 + dict_get counts ''LOG1'' 0 + dict_get counts ''LOG2'' 0
     + dict_get counts ''LOG3'' 0 + dict_get counts ''LOG4'' (0::nat)"
proof -
  have u: "[0 ..< 5] = [0, 1, 2, 3, 4]" by code_simp
  have d: "str_nat 0 = ''0''" "str_nat (Suc 0) = ''1''" "str_nat 2 = ''2''" "str_nat 3 = ''3''"
    "str_nat 4 = ''4''" by code_simp+
  show ?thesis unfolding u by (simp add: d del: str_nat.simps)
qed

lemma recommend_fallback:
  "(if 10 < dict_get counts ''SSTORE'' 0
       \<or> 10 < dict_get counts ''LOG0'' 0 + dict_get counts ''LOG1'' 0 + dict_get counts ''LOG2'' 0
              + dict_get counts ''LOG3'' 0 + dict_get counts ''LOG4'' 0
       \<or> 5 < dict_get counts ''CALL'' 0 + dict_get counts ''DELEGATECALL'' 0
             + dict_get counts ''STATICCALL'' 0
       \<or> 0 < dict_get counts ''UNKNOWN'' 0
    then fallback_msg \<notin> set (recommend counts)
    else recommend counts = [fallback_msg])"
  unfolding recommend_def Let_def log_ops_sum
  by (simp add: sstore_fallback [symmetric] fallback_log fallback_call fallback_unknown
      del: str_nat.simps upt_Suc)

text \<open>
  Claim C7. Whenever the decoder returns an opcode sequence: when none of the four
  threshold rules holds of it, the recommendations are the one-element list of the
  fallback string; when at least one holds, the fallback string is not among them.
\<close>

theorem fallback_only_when_no_rule_fires:
  assumes "decode_evm_bytecode bytecode = Inr opcode_list"
  shows "\<exists>r. analyze_bytecode bytecode = Inr r \<and>
           (if rule_fired opcode_list then fallback_msg \<notin> set (recommendations r)
            else recommendations r = [fallback_msg])"
  using recommend_fallback [of "fst (fold tally opcode_list ([], 0))"]
  by (simp only: analyze_bytecode_Inr [OF assms] tallied_count rule_fired_def)
    (simp del: str_nat.simps)


theorem fallback_only_when_no_rule_fires_witness:
  "(\<exists>r. analyze_bytecode ''0x6001600201'' = Inr r \<and> recommendations r = [fallback_msg]) \<and>
   (\<exists>r. analyze_bytecode ''0x0c'' = Inr r \<and> fallback_msg \<notin> set (recommendations r))"
proof -
  have d1: "decode_evm_bytecode ''0x6001600201'' = Inr [''PUSH1'', ''PUSH1'', ''ADD'']"
    by code_simp
  have d2: "decode_evm_bytecode ''0x0c'' = Inr [''UNKNOWN'']"
    by code_simp
  have f1: "\<not> rule_fired [''PUSH1'', ''PUSH1'', ''ADD'']" by code_simp
  have f2: "rule_fired [''UNKNOWN'']" by code_simp
  show ?thesis
    using fallback_only_when_no_rule_fires [OF d1] fallback_only_when_no_rule_fires [OF d2] f1 f2
    by simp
qed

section \<open>Anomaly scoring on a constant reference window\<close>

text \<open>
  Claim C1, as the code has it. For the values 1, 1, 1, 1, 100 and the default
  threshold, the reference window 1, 1, 1, 1 has standard deviation zero, so the
  endpoint takes its zero-variance branch: the score is the sentinel 0, and
  \<^verbatim>\<open>is_anomaly\<close> is true because the current value differs from the mean.
\<close>

theorem anomaly_constant_window_sentinel:
  "anomaly [1, 1, 1, 1, 100] default_threshold =
     Inr \<lparr>score = 0, is_anomaly = True, message = ''Anomaly''\<rparr>"
  by (simp add: anomaly_def statistics_mean_def statistics_pstdev_def default_threshold_def Let_def)

text \<open>
  Claim C1, as stated, fails: on that input the endpoint does not return a non-zero
  score together with \<^verbatim>\<open>is_anomaly\<close>.
\<close>

theorem anomaly_score_is_zero:
  "\<not> (\<exists>r. anomaly [1, 1, 1, 1, 100] default_threshold = Inr r \<and> score r \<noteq> 0 \<and> is_anomaly r)"
  by (simp add: anomaly_def statistics_mean_def statistics_pstdev_def default_threshold_def Let_def)

section \<open>Forecasting from fewer than two values\<close>



section \<open>The gas-price variance stage\<close>











section \<open>Liquidity analysis and unrecognized event types\<close>

lemma step_tvl_get:
  "dict_get (fst (liquidity_step ev (tvl, bm))) q 0 =
     dict_get tvl q 0 + (if q = protocol ev then tvl_delta ev else 0)"
  by (simp add: liquidity_step_def tvl_delta_def Let_def dict_get_update)

lemma step_tvl_keys:
  "fst ` set (fst (liquidity_step ev (tvl, bm))) = insert (protocol ev) (fst ` set tvl)"
  by (simp add: liquidity_step_def Let_def keys_update)

lemma step_bridge_indep:
  "snd (liquidity_step ev (tvl, bm)) = snd (liquidity_step ev (tvl', bm))"
  by (simp add: liquidity_step_def Let_def)

lemma step_bridge_unrecognized:
  "\<not> recognized ev \<Longrightarrow> snd (liquidity_step ev (tvl, bm)) = bm"
  by (simp add: liquidity_step_def Let_def recognized_def)

lemma tvl_delta_unrecognized: "\<not> recognized ev \<Longrightarrow> tvl_delta ev = 0"
  by (simp add: tvl_delta_def recognized_def)

lemma fold_keys:
  "fst ` set (fst (fold liquidity_step events st)) = fst ` set (fst st) \<union> protocol ` set events"
proof (induction events arbitrary: st)
  case Nil
  show ?case by simp
next
  case (Cons ev events)
  obtain tvl bm where st: "st = (tvl, bm)" by (cases st)
  show ?case
    by (simp add: Cons.IH st step_tvl_keys)
qed

lemma fold_untouched:
  "\<forall>ev\<in>set events. protocol ev = p \<longrightarrow> \<not> recognized ev \<Longrightarrow>
   dict_get (fst (fold liquidity_step events st)) p 0 = dict_get (fst st) p 0"
proof (induction events arbitrary: st)
  case Nil
  show ?case by simp
next
  case (Cons ev events)
  obtain tvl bm where st: "st = (tvl, bm)" by (cases st)
  from Cons.prems have rest: "\<forall>ev\<in>set events. protocol ev = p \<longrightarrow> \<not> recognized ev"
    and this_ev: "protocol ev = p \<longrightarrow> tvl_delta ev = 0"
    by (simp_all add: tvl_delta_unrecognized)
  show ?case
    using this_ev by (simp add: Cons.IH [OF rest] st step_tvl_get)
qed

lemma fold_filter:
  "snd st = snd st' \<Longrightarrow> \<forall>q. dict_get (fst st) q 0 = dict_get (fst st') q 0 \<Longrightarrow>
   snd (fold liquidity_step events st) = snd (fold liquidity_step (filter recognized events) st') \<and>
   (\<forall>q. dict_get (fst (fold liquidity_step events st)) q 0 =
        dict_get (fst (fold liquidity_step (filter recognized events) st')) q 0)"
proof (induction events arbitrary: st st')
  case Nil
  then show ?case by simp
next
  case (Cons ev events)
  obtain tvl bm where st: "st = (tvl, bm)" by (cases st)
  obtain tvl' bm' where st': "st' = (tvl', bm')" by (cases st')
  from Cons.prems st st' have bm: "bm' = bm" and
    get: "\<And>q. dict_get tvl q 0 = dict_get tvl' q 0" by simp_all
  show ?case
  proof (cases "recognized ev")
    case True
    have "snd (liquidity_step ev st) = snd (liquidity_step ev st')"
      unfolding st st' bm by (rule step_bridge_indep)
    moreover have "\<forall>q. dict_get (fst (liquidity_step ev st)) q 0 = dict_get (fst (liquidity_step ev st')) q 0"
      unfolding st st' by (simp add: step_tvl_get get)
    ultimately show ?thesis
      using Cons.IH [of "liquidity_step ev st" "liquidity_step ev st'"] True by simp
  next
    case False
    have "snd (liquidity_step ev st) = snd st'"
      unfolding st st' bm using False by (simp add: step_bridge_unrecognized)
    moreover have "\<forall>q. dict_get (fst (liquidity_step ev st)) q 0 = dict_get (fst st') q 0"
      unfolding st st' using False by (simp add: step_tvl_get get tvl_delta_unrecognized)
    ultimately show ?thesis
      using Cons.IH [of "liquidity_step ev st" st'] False by simp
  qed
qed

lemma analyze_tvl: "tvl_by_protocol (analyze_liquidity_bridge events) = fst (fold liquidity_step events ([], []))"
  by (simp add: analyze_liquidity_bridge_def split: prod.splits)

lemma analyze_flows:
  "bridge_flows (analyze_liquidity_bridge events) =
     map (\<lambda>((p, f, t), total). \<lparr>flow_protocol = p, from_chain = f, to_chain = t, total_amount = total\<rparr>)
       (snd (fold liquidity_step events ([], [])))"
  by (simp add: analyze_liquidity_bridge_def split: prod.splits)

text \<open>
  Claim C10. Every protocol an event names is a key of \<^verbatim>\<open>tvl_by_protocol\<close>, whatever the
  event's type; a protocol whose events all have an unrecognized type has the value 0;
  and an analysis of the events without the unrecognized ones gives the same bridge
  flows and the same total for every protocol.
\<close>

theorem unrecognized_events_only_add_keys:
  "(\<forall>ev\<in>set events. protocol ev \<in> fst ` set (tvl_by_protocol (analyze_liquidity_bridge events))) \<and>
   (\<forall>p. p \<in> protocol ` set events \<and> (\<forall>ev\<in>set events. protocol ev = p \<longrightarrow> \<not> recognized ev) \<longrightarrow>
        map_of (tvl_by_protocol (analyze_liquidity_bridge events)) p = Some 0) \<and>
   bridge_flows (analyze_liquidity_bridge events) =
     bridge_flows (analyze_liquidity_bridge (filter recognized events)) \<and>
   (\<forall>p. dict_get (tvl_by_protocol (analyze_liquidity_bridge events)) p 0 =
        dict_get (tvl_by_protocol (analyze_liquidity_bridge (filter recognized events))) p 0)"
proof (intro conjI allI impI ballI)
  fix ev assume "ev \<in> set events"
  then show "protocol ev \<in> fst ` set (tvl_by_protocol (analyze_liquidity_bridge events))"
    by (simp add: analyze_tvl fold_keys)
next
  fix p
  assume a: "p \<in> protocol ` set events \<and> (\<forall>ev\<in>set events. protocol ev = p \<longrightarrow> \<not> recognized ev)"
  then have "p \<in> fst ` set (tvl_by_protocol (analyze_liquidity_bridge events))"
    by (simp add: analyze_tvl fold_keys)
  then obtain v where v: "map_of (tvl_by_protocol (analyze_liquidity_bridge events)) p = Some v"
    by (auto simp: dom_map_of_conv_image_fst [symmetric])
  from a have "dict_get (tvl_by_protocol (analyze_liquidity_bridge events)) p 0 = 0"
    by (simp add: analyze_tvl fold_untouched dict_get_Nil)
  with v show "map_of (tvl_by_protocol (analyze_liquidity_bridge events)) p = Some 0"
    by (simp add: dict_get_def)
next
  show "bridge_flows (analyze_liquidity_bridge events) =
     bridge_flows (analyze_liquidity_bridge (filter recognized events))"
    using fold_filter [of "([], [])" "([], [])" events] by (simp add: analyze_flows)
next
  fix p
  show "dict_get (tvl_by_protocol (analyze_liquidity_bridge events)) p 0 =
        dict_get (tvl_by_protocol (analyze_liquidity_bridge (filter recognized events))) p 0"
    using fold_filter [of "([], [])" "([], [])" events] by (simp add: analyze_tvl)
qed

theorem unrecognized_events_only_add_keys_witness:
  "''q'' \<in> fst ` set (tvl_by_protocol (analyze_liquidity_bridge
      [\<lparr>protocol = ''p'', chain_from = ''eth'', chain_to = ''arb'', token = ''t'', amount = 5,
        event_type = ''stake'', event_timestamp = 1\<rparr>,
       \<lparr>protocol = ''q'', chain_from = ''eth'', chain_to = ''arb'', token = ''t'', amount = 7,
        event_type = ''swap'', event_timestamp = 2\<rparr>])) \<and>
   map_of (tvl_by_protocol (analyze_liquidity_bridge
      [\<lparr>protocol = ''p'', chain_from = ''eth'', chain_to = ''arb'', token = ''t'', amount = 5,
        event_type = ''stake'', event_timestamp = 1\<rparr>,
       \<lparr>protocol = ''q'', chain_from = ''eth'', chain_to = ''arb'', token = ''t'', amount = 7,
        event_type = ''swap'', event_timestamp = 2\<rparr>])) ''q'' = Some 0"
proof -
  let ?e1 = "\<lparr>protocol = ''p'', chain_from = ''eth'', chain_to = ''arb'', token = ''t'', amount = 5,
        event_type = ''stake'', event_timestamp = 1\<rparr>"
  let ?e2 = "\<lparr>protocol = ''q'', chain_from = ''eth'', chain_to = ''arb'', token = ''t'', amount = 7,
        event_type = ''swap'', event_timestamp = 2\<rparr>"
  have h: "''q'' \<in> protocol ` set [?e1, ?e2] \<and>
           (\<forall>ev\<in>set [?e1, ?e2]. protocol ev = ''q'' \<longrightarrow> \<not> recognized ev)"
    by (simp add: recognized_def)
  have m: "?e2 \<in> set [?e1, ?e2]" by simp
  from unrecognized_events_only_add_keys [of "[?e1, ?e2]"] h m show ?thesis
    by (metis LiquidityEvent.select_convs(1))
qed

end
